theory Spec2Isabelle
  imports Main
begin

section \<open>JavaScript values and objects\<close>

text \<open>
  The values a \<open>color\<close> prop can hold at run time: \<open>undefined\<close>, \<open>null\<close>, a string, or an
  object (a themed pair \<open>{light, dark}\<close> or an opaque platform colour). An object is the list
  of its own enumerable properties in insertion order. Colour values are never mutated by
  the module, so they are plain values; the \<open>Props\<close> objects of the stack are compared by
  identity and one of them is mutated, so they live in a heap (see below).
\<close>

datatype jsval = Undefined | Null | Str string | Obj "(string \<times> jsval) list"

type_synonym props = "(string \<times> jsval) list"

text \<open>\<open>k in o\<close>, \<open>o[k]\<close> and \<open>o[k] = v\<close> on a property list.\<close>

definition has_prop :: "props \<Rightarrow> string \<Rightarrow> bool" where
  "has_prop ps k = (map_of ps k \<noteq> None)"

definition get_prop :: "props \<Rightarrow> string \<Rightarrow> jsval" where
  "get_prop ps k = (case map_of ps k of None \<Rightarrow> Undefined | Some v \<Rightarrow> v)"

fun set_prop :: "props \<Rightarrow> string \<Rightarrow> jsval \<Rightarrow> props" where
  "set_prop [] k v = [(k, v)]"
| "set_prop ((k', v') # ps) k v =
     (if k' = k then (k, v) # ps else (k', v') # set_prop ps k v)"

text \<open>Truthiness (\<open>!!v\<close>, \<open>if (v)\<close>), \<open>v != null\<close> negated, \<open>a ?? b\<close>, \<open>typeof v === 'string'\<close>.\<close>

fun truthy :: "jsval \<Rightarrow> bool" where
  "truthy Undefined = False"
| "truthy Null = False"
| "truthy (Str s) = (s \<noteq> [])"
| "truthy (Obj ps) = True"

fun nullish :: "jsval \<Rightarrow> bool" where
  "nullish Undefined = True"
| "nullish Null = True"
| "nullish (Str s) = False"
| "nullish (Obj ps) = False"

definition coalesce :: "jsval \<Rightarrow> jsval \<Rightarrow> jsval" where
  "coalesce a b = (if nullish a then b else a)"

fun is_string :: "jsval \<Rightarrow> bool" where
  "is_string (Str s) = True"
| "is_string Undefined = False"
| "is_string Null = False"
| "is_string (Obj ps) = False"

text \<open>
  \<open>k in v\<close> and \<open>v.k\<close> on a value. On \<open>undefined\<close>, \<open>null\<close> and strings JavaScript raises; the
  module only evaluates them behind \<open>!!v && typeof v !== 'string'\<close>, which leaves objects.
\<close>

fun js_in :: "string \<Rightarrow> jsval \<Rightarrow> bool" where
  "js_in k (Obj ps) = has_prop ps k"
| "js_in k Undefined = False"
| "js_in k Null = False"
| "js_in k (Str s) = False"

fun field :: "jsval \<Rightarrow> string \<Rightarrow> jsval" where
  "field (Obj ps) k = get_prop ps k"
| "field Undefined k = Undefined"
| "field Null k = Undefined"
| "field (Str s) k = Undefined"

text \<open>\<open>ColorSchemeName\<close>: \<open>'light' | 'dark' | null | undefined\<close>.\<close>

datatype colorScheme = Light | Dark | Unspecified

section \<open>Module state, heap and environment\<close>

type_synonym addr = nat

datatype error = TypeError

text \<open>The calls the module makes into its collaborators, in order.\<close>

datatype ext_call =
    SetBackgroundColorAsync jsval
  | AddChangeListener
  | RemoveChangeListener
  | AddEventListener
  | RemoveEventListener

text \<open>
  \<open>heap\<close> holds the \<open>Props\<close> objects the module creates; an object's address is its index
  and allocation appends. \<open>propsStack\<close>, \<open>updateImmediate\<close>, \<open>appearanceListener\<close> and
  \<open>appStateListener\<close> are the module's variables (a listener variable is its closure or
  \<open>null\<close>; the closure is always the same function, so only its presence is state). The
  rest is the environment: the pending \<open>setImmediate\<close> callbacks of this module and the
  next timer handle, the value of \<open>Appearance.getColorScheme()\<close>, how many times the
  module's listener is registered with \<open>Appearance\<close> and with \<open>AppState\<close>, and the log of
  external calls.

  A JavaScript reference always points to an object, so the functions below read
  \<open>heap ! a\<close> directly. They do so at the addresses in the stack, at \<open>defaultProps\<close> and at
  the address a call has just allocated; \<open>heap_ok\<close> below states that these are allocated,
  and it holds in every reachable state.
\<close>

record state =
  heap :: "props list"
  propsStack :: "addr list"
  updateImmediate :: "nat option"
  appearanceListener :: bool
  appStateListener :: bool
  immediateQueue :: "nat list"
  immediateCounter :: nat
  systemScheme :: colorScheme
  appearanceSubs :: nat
  appStateSubs :: nat
  calls :: "ext_call list"

definition alloc :: "props \<Rightarrow> props list \<Rightarrow> addr \<times> props list" where
  "alloc obj h = (length h, h @ [obj])"

text \<open>\<open>createStackEntry(props)\<close> builds \<open>{color: props.color}\<close>; the argument is \<open>props.color\<close>.\<close>

definition createStackEntry :: "jsval \<Rightarrow> props list \<Rightarrow> addr \<times> props list" where
  "createStackEntry color h = alloc [(''color'', color)] h"

text \<open>\<open>const defaultProps = createStackEntry({color: '#fff'})\<close> is the first allocation.\<close>

definition defaultProps :: addr where
  "defaultProps = 0"

definition init :: "colorScheme \<Rightarrow> state" where
  "init sch =
     \<lparr> heap = snd (createStackEntry (Str ''#fff'') []),
       propsStack = [],
       updateImmediate = None,
       appearanceListener = False,
       appStateListener = False,
       immediateQueue = [],
       immediateCounter = 0,
       systemScheme = sch,
       appearanceSubs = 0,
       appStateSubs = 0,
       calls = [] \<rparr>"

section \<open>The functions of the module\<close>

definition isThemedColor :: "jsval \<Rightarrow> bool" where
  "isThemedColor color =
     (truthy color \<and> \<not> is_string color \<and> js_in ''light'' color \<and> js_in ''dark'' color)"

text \<open>
  \<open>mergePropsStack\<close>: \<open>prev\<close> is a fresh copy of the default values; every entry of the stack
  writes each of its properties that is not \<open>null\<close>/\<open>undefined\<close> into \<open>prev\<close>.
\<close>

definition merge_prop :: "addr \<Rightarrow> addr \<Rightarrow> string \<Rightarrow> props list \<Rightarrow> props list" where
  "merge_prop prev cur prop h =
     (if \<not> nullish (get_prop (h ! cur) prop)
      then h[prev := set_prop (h ! prev) prop (get_prop (h ! cur) prop)]
      else h)"

definition merge_entry :: "addr \<Rightarrow> addr \<Rightarrow> props list \<Rightarrow> props list" where
  "merge_entry prev cur h = fold (merge_prop prev cur) (map fst (h ! cur)) h"

definition mergePropsStack :: "addr list \<Rightarrow> addr \<Rightarrow> props list \<Rightarrow> addr \<times> props list" where
  "mergePropsStack stack defaultValues h =
     (let (prev, h1) = alloc (h ! defaultValues) h
      in (prev, fold (merge_entry prev) stack h1))"

definition setBackgroundColorAsync :: "jsval \<Rightarrow> state \<Rightarrow> state" where
  "setBackgroundColorAsync c s = s\<lparr>calls := calls s @ [SetBackgroundColorAsync c]\<rparr>"

text \<open>The argument \<open>setColorAsync\<close> hands to \<open>SystemUI.setBackgroundColorAsync\<close>.\<close>

definition resolve :: "colorScheme \<Rightarrow> jsval \<Rightarrow> jsval" where
  "resolve scheme color =
     (if isThemedColor color
      then (if scheme = Dark then coalesce (field color ''dark'') (Str ''#000'')
            else coalesce (field color ''light'') (Str ''#fff''))
      else coalesce color (Str ''#fff''))"

definition setColorAsync :: "colorScheme \<Rightarrow> jsval \<Rightarrow> state \<Rightarrow> state" where
  "setColorAsync scheme color s = setBackgroundColorAsync (resolve scheme color) s"

text \<open>\<open>clearImmediate\<close> and \<open>setImmediate\<close> of the environment.\<close>

definition clearImmediate :: "nat option \<Rightarrow> state \<Rightarrow> state" where
  "clearImmediate t s =
     (case t of None \<Rightarrow> s
      | Some n \<Rightarrow> s\<lparr>immediateQueue := removeAll n (immediateQueue s)\<rparr>)"

definition setImmediate :: "state \<Rightarrow> nat \<times> state" where
  "setImmediate s =
     (immediateCounter s,
      s\<lparr>immediateQueue := immediateQueue s @ [immediateCounter s],
        immediateCounter := immediateCounter s + 1\<rparr>)"

definition updatePropsStack :: "state \<Rightarrow> state" where
  "updatePropsStack s =
     (let s1 = clearImmediate (updateImmediate s) s;
          (t, s2) = setImmediate s1
      in s2\<lparr>updateImmediate := Some t\<rparr>)"

text \<open>The callback \<open>_updatePropsStack\<close> hands to \<open>setImmediate\<close>.\<close>

definition updateCallback :: "state \<Rightarrow> state" where
  "updateCallback s =
     (let (merged, h) = mergePropsStack (propsStack s) defaultProps (heap s);
          color = get_prop (h ! merged) ''color'';
          s1 = s\<lparr>heap := h\<rparr>
      in if truthy color then setColorAsync (systemScheme s1) color s1 else s1)"

definition setColor :: "jsval \<Rightarrow> state \<Rightarrow> state" where
  "setColor color s =
     (let s1 = s\<lparr>heap := (heap s)[defaultProps := set_prop (heap s ! defaultProps) ''color'' color]\<rparr>
      in setColorAsync (systemScheme s1) color s1)"

definition addChangeListener :: "state \<Rightarrow> state" where
  "addChangeListener s =
     s\<lparr>appearanceSubs := appearanceSubs s + 1, calls := calls s @ [AddChangeListener]\<rparr>"

definition removeChangeListener :: "state \<Rightarrow> state" where
  "removeChangeListener s =
     s\<lparr>appearanceSubs := appearanceSubs s - 1, calls := calls s @ [RemoveChangeListener]\<rparr>"

definition addEventListener :: "state \<Rightarrow> state" where
  "addEventListener s =
     s\<lparr>appStateSubs := appStateSubs s + 1, calls := calls s @ [AddEventListener]\<rparr>"

definition removeEventListener :: "state \<Rightarrow> state" where
  "removeEventListener s =
     s\<lparr>appStateSubs := appStateSubs s - 1, calls := calls s @ [RemoveEventListener]\<rparr>"

definition pushStackEntry :: "jsval \<Rightarrow> state \<Rightarrow> addr \<times> state" where
  "pushStackEntry color s =
     (let (entry, h) = createStackEntry color (heap s);
          s1 = s\<lparr>heap := h, propsStack := propsStack s @ [entry]\<rparr>;
          s2 = (if \<not> appearanceListener s1
                then addChangeListener (s1\<lparr>appearanceListener := True\<rparr>) else s1);
          s3 = (if \<not> appStateListener s2
                then addEventListener (s2\<lparr>appStateListener := True\<rparr>) else s2)
      in (entry, updatePropsStack s3))"

text \<open>\<open>Array.prototype.indexOf\<close> (first position, or \<open>-1\<close>) and \<open>splice(index, 1)\<close>.\<close>

fun indexOf :: "addr list \<Rightarrow> addr \<Rightarrow> int" where
  "indexOf [] a = -1"
| "indexOf (x # xs) a =
     (if x = a then 0 else (let i = indexOf xs a in if i = -1 then -1 else i + 1))"

definition splice1 :: "addr list \<Rightarrow> int \<Rightarrow> addr list" where
  "splice1 xs i = take (nat i) xs @ drop (nat i + 1) xs"

definition popStackEntry :: "addr \<Rightarrow> state \<Rightarrow> state" where
  "popStackEntry entry s =
     (let index = indexOf (propsStack s) entry;
          s1 = (if index \<noteq> -1 then s\<lparr>propsStack := splice1 (propsStack s) index\<rparr> else s);
          s2 = (if length (propsStack s1) = 0
                then (let a = (if appearanceListener s1
                               then (removeChangeListener s1)\<lparr>appearanceListener := False\<rparr>
                               else s1)
                      in if appStateListener a
                         then (removeEventListener a)\<lparr>appStateListener := False\<rparr>
                         else a)
                else s1)
      in updatePropsStack s2)"

definition replaceStackEntry :: "addr \<Rightarrow> jsval \<Rightarrow> state \<Rightarrow> addr \<times> state" where
  "replaceStackEntry entry color s =
     (let (newEntry, h) = createStackEntry color (heap s);
          s0 = s\<lparr>heap := h\<rparr>;
          index = indexOf (propsStack s0) entry;
          s1 = (if index \<noteq> -1
                then s0\<lparr>propsStack := (propsStack s0)[nat index := newEntry]\<rparr> else s0)
      in (newEntry, updatePropsStack s1))"

text \<open>
  The two listeners read \<open>propsStack[propsStack.length - 1].color\<close>: an index outside the
  array yields \<open>undefined\<close>, and reading \<open>.color\<close> of it raises a TypeError.
\<close>

definition js_index :: "'a list \<Rightarrow> int \<Rightarrow> 'a option" where
  "js_index xs i = (if 0 \<le> i \<and> i < int (length xs) then Some (xs ! nat i) else None)"

definition topColor :: "state \<Rightarrow> error + jsval" where
  "topColor s =
     (case js_index (propsStack s) (int (length (propsStack s)) - 1) of
        None \<Rightarrow> Inl TypeError
      | Some a \<Rightarrow> Inr (get_prop (heap s ! a) ''color''))"

definition appearanceListenerFn :: "colorScheme \<Rightarrow> state \<Rightarrow> error + state" where
  "appearanceListenerFn scheme s =
     (case topColor s of Inl e \<Rightarrow> Inl e | Inr c \<Rightarrow> Inr (setColorAsync scheme c s))"

definition appStateListenerFn :: "state \<Rightarrow> error + state" where
  "appStateListenerFn s =
     (case topColor s of Inl e \<Rightarrow> Inl e | Inr c \<Rightarrow> Inr (setColorAsync (systemScheme s) c s))"

section \<open>Events\<close>

text \<open>
  What can happen to the module: a call of one of its four entry points, the event loop
  running the next pending immediate, the system theme changing, and the two notification
  sources firing (they call the listener only while it is registered).
\<close>

datatype event =
    Push jsval
  | Pop addr
  | Replace addr jsval
  | SetColor jsval
  | RunImmediate
  | SchemeChanged colorScheme
  | AppearanceNotify colorScheme
  | AppStateNotify

fun step :: "event \<Rightarrow> state \<Rightarrow> error + state" where
  "step (Push c) s = Inr (snd (pushStackEntry c s))"
| "step (Pop a) s = Inr (popStackEntry a s)"
| "step (Replace a c) s = Inr (snd (replaceStackEntry a c s))"
| "step (SetColor c) s = Inr (setColor c s)"
| "step RunImmediate s =
     (case immediateQueue s of
        [] \<Rightarrow> Inr s
      | t # q \<Rightarrow> Inr (updateCallback (s\<lparr>immediateQueue := q\<rparr>)))"
| "step (SchemeChanged sch) s = Inr (s\<lparr>systemScheme := sch\<rparr>)"
| "step (AppearanceNotify sch) s =
     (if 0 < appearanceSubs s then appearanceListenerFn sch s else Inr s)"
| "step AppStateNotify s =
     (if 0 < appStateSubs s then appStateListenerFn s else Inr s)"

fun exec :: "event list \<Rightarrow> state \<Rightarrow> error + state" where
  "exec [] s = Inr s"
| "exec (e # es) s = (case step e s of Inl err \<Rightarrow> Inl err | Inr s' \<Rightarrow> exec es s')"

text \<open>A stack mutation is a push, a pop or a replace.\<close>

fun is_mutation :: "event \<Rightarrow> bool" where
  "is_mutation (Push c) = True"
| "is_mutation (Pop a) = True"
| "is_mutation (Replace a c) = True"
| "is_mutation e = False"

fun is_setColor :: "event \<Rightarrow> bool" where
  "is_setColor (SetColor c) = True"
| "is_setColor e = False"

text \<open>The request of an entry, the effective colour, and the colours sent to the native call.\<close>

definition request :: "state \<Rightarrow> addr \<Rightarrow> jsval" where
  "request s a = get_prop (heap s ! a) ''color''"

definition effectiveColor :: "state \<Rightarrow> jsval" where
  "effectiveColor s =
     (let (merged, h) = mergePropsStack (propsStack s) defaultProps (heap s)
      in get_prop (h ! merged) ''color'')"

fun colorsOf :: "ext_call list \<Rightarrow> jsval list" where
  "colorsOf [] = []"
| "colorsOf (SetBackgroundColorAsync c # cs) = c # colorsOf cs"
| "colorsOf (x # cs) = colorsOf cs"

definition colorCalls :: "state \<Rightarrow> jsval list" where
  "colorCalls s = colorsOf (calls s)"

section \<open>Auxiliary notions for the proofs\<close>

text \<open>What one pass of the \<open>for ... in\<close> loop of \<open>mergePropsStack\<close> does to the object \<open>prev\<close>.\<close>

definition merge_obj :: "props \<Rightarrow> props \<Rightarrow> props" where
  "merge_obj p c =
     fold (\<lambda>k q. if \<not> nullish (get_prop c k) then set_prop q k (get_prop c k) else q)
       (map fst c) p"

text \<open>
  The invariants of the reachable states: every stack entry is an allocated object other
  than the default one and occurs once; a listener is held, and registered once, exactly
  while the stack is non-empty; at most one immediate is pending, the one whose handle
  \<open>updateImmediate\<close> holds, and pending handles are older than the next handle.
\<close>

definition heap_ok :: "state \<Rightarrow> bool" where
  "heap_ok s =
     (defaultProps < length (heap s) \<and>
      (\<forall>a\<in>set (propsStack s). defaultProps < a \<and> a < length (heap s)) \<and>
      distinct (propsStack s))"

definition listeners_ok :: "state \<Rightarrow> bool" where
  "listeners_ok s =
     (appearanceListener s = (propsStack s \<noteq> []) \<and>
      appStateListener s = (propsStack s \<noteq> []) \<and>
      appearanceSubs s = (if propsStack s = [] then 0 else 1) \<and>
      appStateSubs s = (if propsStack s = [] then 0 else 1))"

definition timer_ok :: "state \<Rightarrow> bool" where
  "timer_ok s =
     ((immediateQueue s = [] \<or> map Some (immediateQueue s) = [updateImmediate s]) \<and>
      (\<forall>t\<in>set (immediateQueue s). t < immediateCounter s))"

definition state_ok :: "state \<Rightarrow> bool" where
  "state_ok s = (heap_ok s \<and> listeners_ok s \<and> timer_ok s)"

text \<open>
  An event is well typed when the request it carries is a \<open>ColorValue | ThemedColorValue\<close>,
  which excludes \<open>null\<close> and \<open>undefined\<close> (the type of \<open>Props.color\<close>).
\<close>

fun typed :: "event \<Rightarrow> bool" where
  "typed (Push c) = (\<not> nullish c)"
| "typed (Replace a c) = (\<not> nullish c)"
| "typed e = True"


definition pick :: "props list \<Rightarrow> string \<Rightarrow> addr \<Rightarrow> jsval \<Rightarrow> jsval" where
  "pick h k a v = (if nullish (get_prop (h ! a) k) then v else get_prop (h ! a) k)"


text \<open>The object the recompute builds: the default merged with the stack, bottom to top.\<close>

definition merged_obj :: "state \<Rightarrow> props" where
  "merged_obj s = fold (\<lambda>a q. merge_obj q (heap s ! a)) (propsStack s) (heap s ! defaultProps)"

section \<open>Objects and the merge\<close>

lemma get_set_prop: "get_prop (set_prop ps k v) k' = (if k' = k then v else get_prop ps k')"
  by (induction ps) (auto simp: get_prop_def)

lemma get_prop_absent: "k \<notin> fst ` set c \<Longrightarrow> get_prop c k = Undefined"
  by (simp add: get_prop_def map_of_eq_None_iff[THEN iffD2])

lemma get_fold_keys:
  "get_prop (fold (\<lambda>k q. if \<not> nullish (get_prop c k) then set_prop q k (get_prop c k) else q)
      ks p) k' =
   (if k' \<in> set ks \<and> \<not> nullish (get_prop c k') then get_prop c k' else get_prop p k')"
  by (induction ks arbitrary: p) (auto simp: get_set_prop)

lemma get_merge_obj:
  "get_prop (merge_obj p c) k = (if nullish (get_prop c k) then get_prop p k else get_prop c k)"
  using get_prop_absent[of k c] by (auto simp: merge_obj_def get_fold_keys)

text \<open>The merge writes into the freshly allocated object only.\<close>

lemma fold_merge_prop:
  "cur < length h0 \<Longrightarrow>
   fold (merge_prop (length h0) cur) ks (h0 @ [m]) =
   h0 @ [fold (\<lambda>k q. if \<not> nullish (get_prop (h0 ! cur) k)
                      then set_prop q k (get_prop (h0 ! cur) k) else q) ks m]"
  by (induction ks arbitrary: m) (simp_all add: merge_prop_def nth_append)

lemma merge_entry_fresh:
  "cur < length h0 \<Longrightarrow> merge_entry (length h0) cur (h0 @ [m]) = h0 @ [merge_obj m (h0 ! cur)]"
  by (simp add: merge_entry_def merge_obj_def fold_merge_prop nth_append)

lemma fold_merge_entry:
  "\<forall>a\<in>set stack. a < length h0 \<Longrightarrow>
   fold (merge_entry (length h0)) stack (h0 @ [m]) =
   h0 @ [fold (\<lambda>a q. merge_obj q (h0 ! a)) stack m]"
  by (induction stack arbitrary: m) (simp_all add: merge_entry_fresh)

lemma mergePropsStack_fresh:
  "\<forall>a\<in>set stack. a < length h \<Longrightarrow>
   mergePropsStack stack d h =
   (length h, h @ [fold (\<lambda>a q. merge_obj q (h ! a)) stack (h ! d)])"
  by (simp add: mergePropsStack_def alloc_def fold_merge_entry)

section \<open>Arrays and the scheduler\<close>

lemma indexOf_ge: "-1 \<le> indexOf xs a"
  by (induction xs) (auto simp: Let_def)

lemma indexOf_absent: "(indexOf xs a = -1) = (a \<notin> set xs)"
proof (induction xs)
  case Nil
  then show ?case by simp
next
  case (Cons x xs)
  have "indexOf xs a + 1 \<noteq> -1" using indexOf_ge[of xs a] by simp
  with Cons show ?case by (simp add: Let_def)
qed

lemma indexOf_present:
  "a \<in> set xs \<Longrightarrow> 0 \<le> indexOf xs a \<and> nat (indexOf xs a) < length xs \<and> xs ! nat (indexOf xs a) = a"
proof (induction xs)
  case Nil
  then show ?case by simp
next
  case (Cons x xs)
  show ?case
  proof (cases "x = a")
    case True
    then show ?thesis by simp
  next
    case False
    with Cons.prems have mem: "a \<in> set xs" by simp
    from Cons.IH[OF mem] have ih: "0 \<le> indexOf xs a" "nat (indexOf xs a) < length xs"
      "xs ! nat (indexOf xs a) = a" by simp_all
    from ih(1) have ne: "indexOf xs a \<noteq> -1" by simp
    have "nat (indexOf xs a + 1) = Suc (nat (indexOf xs a))" using ih(1) by simp
    with False ne ih show ?thesis by (simp add: Let_def)
  qed
qed

lemma splice1_indexOf: "a \<in> set xs \<Longrightarrow> splice1 xs (indexOf xs a) = remove1 a xs"
proof (induction xs)
  case Nil
  then show ?case by simp
next
  case (Cons x xs)
  show ?case
  proof (cases "x = a")
    case True
    then show ?thesis by (simp add: splice1_def)
  next
    case False
    with Cons.prems have mem: "a \<in> set xs" by simp
    from indexOf_present[OF mem] have ge: "0 \<le> indexOf xs a" by simp
    then have ne: "indexOf xs a \<noteq> -1" by simp
    have n: "nat (indexOf xs a + 1) = Suc (nat (indexOf xs a))" using ge by simp
    from Cons.IH[OF mem] have "take (nat (indexOf xs a)) xs @ drop (Suc (nat (indexOf xs a))) xs = remove1 a xs"
      by (simp add: splice1_def)
    with False ne n show ?thesis by (simp add: splice1_def Let_def)
  qed
qed

text \<open>Scheduling a recompute touches the timer state only.\<close>

lemma updatePropsStack_eq:
  "updatePropsStack s =
   s\<lparr>immediateQueue :=
        filter (\<lambda>t. Some t \<noteq> updateImmediate s) (immediateQueue s) @ [immediateCounter s],
      immediateCounter := immediateCounter s + 1,
      updateImmediate := Some (immediateCounter s)\<rparr>"
proof (cases "updateImmediate s")
  case None
  then show ?thesis
    by (simp add: updatePropsStack_def clearImmediate_def setImmediate_def)
next
  case (Some n)
  have "filter (\<lambda>t. t \<noteq> n) q = removeAll n q" for q
    by (induction q) auto
  with Some show ?thesis
    by (simp add: updatePropsStack_def clearImmediate_def setImmediate_def)
qed

section \<open>What each operation does to the state\<close>

lemma pushStackEntry_eq:
  "pushStackEntry c s =
   (length (heap s),
    s\<lparr>heap := heap s @ [[(''color'', c)]],
      propsStack := propsStack s @ [length (heap s)],
      appearanceListener := True,
      appStateListener := True,
      appearanceSubs := (if appearanceListener s then appearanceSubs s else appearanceSubs s + 1),
      appStateSubs := (if appStateListener s then appStateSubs s else appStateSubs s + 1),
      calls := calls s @ (if appearanceListener s then [] else [AddChangeListener])
                 @ (if appStateListener s then [] else [AddEventListener]),
      immediateQueue :=
        filter (\<lambda>t. Some t \<noteq> updateImmediate s) (immediateQueue s) @ [immediateCounter s],
      immediateCounter := immediateCounter s + 1,
      updateImmediate := Some (immediateCounter s)\<rparr>)"
  by (simp add: pushStackEntry_def createStackEntry_def alloc_def Let_def updatePropsStack_eq
      addChangeListener_def addEventListener_def)

lemma popStackEntry_eq:
  "popStackEntry a s =
   s\<lparr>propsStack := remove1 a (propsStack s),
     appearanceListener := (if remove1 a (propsStack s) = [] then False else appearanceListener s),
     appStateListener := (if remove1 a (propsStack s) = [] then False else appStateListener s),
     appearanceSubs := (if remove1 a (propsStack s) = [] \<and> appearanceListener s
                        then appearanceSubs s - 1 else appearanceSubs s),
     appStateSubs := (if remove1 a (propsStack s) = [] \<and> appStateListener s
                      then appStateSubs s - 1 else appStateSubs s),
     calls := calls s
        @ (if remove1 a (propsStack s) = [] \<and> appearanceListener s then [RemoveChangeListener] else [])
        @ (if remove1 a (propsStack s) = [] \<and> appStateListener s then [RemoveEventListener] else []),
     immediateQueue :=
        filter (\<lambda>t. Some t \<noteq> updateImmediate s) (immediateQueue s) @ [immediateCounter s],
     immediateCounter := immediateCounter s + 1,
     updateImmediate := Some (immediateCounter s)\<rparr>"
proof (cases "a \<in> set (propsStack s)")
  case True
  then have ne: "indexOf (propsStack s) a \<noteq> -1" by (simp add: indexOf_absent)
  show ?thesis
    by (simp add: popStackEntry_def Let_def ne splice1_indexOf[OF True] updatePropsStack_eq
        removeChangeListener_def removeEventListener_def)
next
  case False
  then have eq: "indexOf (propsStack s) a = -1" by (simp add: indexOf_absent)
  from False have r: "remove1 a (propsStack s) = propsStack s" by (simp add: remove1_idem)
  show ?thesis
    by (simp add: popStackEntry_def Let_def eq r updatePropsStack_eq
        removeChangeListener_def removeEventListener_def)
qed

lemma replaceStackEntry_eq:
  "replaceStackEntry a c s =
   (length (heap s),
    s\<lparr>heap := heap s @ [[(''color'', c)]],
      propsStack := (if a \<in> set (propsStack s)
                     then (propsStack s)[nat (indexOf (propsStack s) a) := length (heap s)]
                     else propsStack s),
      immediateQueue :=
        filter (\<lambda>t. Some t \<noteq> updateImmediate s) (immediateQueue s) @ [immediateCounter s],
      immediateCounter := immediateCounter s + 1,
      updateImmediate := Some (immediateCounter s)\<rparr>)"
  by (simp add: replaceStackEntry_def createStackEntry_def alloc_def Let_def updatePropsStack_eq
      indexOf_absent)

lemma setColor_eq:
  "setColor c s =
   s\<lparr>heap := (heap s)[defaultProps := set_prop (heap s ! defaultProps) ''color'' c],
     calls := calls s @ [SetBackgroundColorAsync (resolve (systemScheme s) c)]\<rparr>"
  by (simp add: setColor_def Let_def setColorAsync_def setBackgroundColorAsync_def)

lemma effectiveColor_eq:
  "heap_ok s \<Longrightarrow> effectiveColor s = get_prop (merged_obj s) ''color''"
  by (simp add: effectiveColor_def heap_ok_def mergePropsStack_fresh merged_obj_def)

lemma updateCallback_eq:
  "heap_ok s \<Longrightarrow>
   updateCallback s =
   s\<lparr>heap := heap s @ [merged_obj s],
     calls := calls s @ (if truthy (effectiveColor s)
                         then [SetBackgroundColorAsync (resolve (systemScheme s) (effectiveColor s))]
                         else [])\<rparr>"
  by (simp add: effectiveColor_eq)
     (simp add: updateCallback_def heap_ok_def mergePropsStack_fresh merged_obj_def
        setColorAsync_def setBackgroundColorAsync_def)

section \<open>The invariant holds in every reachable state\<close>

lemma ok_init: "state_ok (init sch)"
  by (simp add: state_ok_def heap_ok_def listeners_ok_def timer_ok_def init_def createStackEntry_def
      alloc_def defaultProps_def)

lemma timer_ok_scheduled:
  "timer_ok s \<Longrightarrow>
   filter (\<lambda>t. Some t \<noteq> updateImmediate s) (immediateQueue s) = []"
  by (cases "immediateQueue s") (auto simp: timer_ok_def)

lemma ok_push: "state_ok s \<Longrightarrow> state_ok (snd (pushStackEntry c s))"
  by (auto simp: state_ok_def heap_ok_def listeners_ok_def timer_ok_def pushStackEntry_eq
      defaultProps_def timer_ok_scheduled[unfolded timer_ok_def])

lemma ok_pop: "state_ok s \<Longrightarrow> state_ok (popStackEntry a s)"
  by (auto simp: state_ok_def heap_ok_def listeners_ok_def timer_ok_def popStackEntry_eq
      timer_ok_scheduled[unfolded timer_ok_def] dest: notin_set_remove1)

lemma set_update_subset: "x \<in> set (xs[i := y]) \<Longrightarrow> x = y \<or> x \<in> set xs"
  using set_update_subset_insert[of xs i y] by auto

lemma ok_replace: "state_ok s \<Longrightarrow> state_ok (snd (replaceStackEntry a c s))"
proof -
  assume i: "state_ok s"
  then have fresh: "length (heap s) \<notin> set (propsStack s)"
    by (auto simp: state_ok_def heap_ok_def)
  have d: "distinct (propsStack s) \<Longrightarrow> distinct ((propsStack s)[k := length (heap s)])" for k
    using fresh by (simp add: distinct_list_update)
  from i show ?thesis
    by (auto simp: state_ok_def heap_ok_def listeners_ok_def timer_ok_def replaceStackEntry_eq d
        defaultProps_def timer_ok_scheduled[unfolded timer_ok_def] dest!: set_update_subset)
qed

lemma ok_setColor: "state_ok s \<Longrightarrow> state_ok (setColor c s)"
  by (auto simp: state_ok_def heap_ok_def listeners_ok_def timer_ok_def setColor_eq)

lemma ok_updateCallback: "state_ok s \<Longrightarrow> state_ok (updateCallback s)"
  by (auto simp: state_ok_def updateCallback_eq) (auto simp: heap_ok_def listeners_ok_def timer_ok_def)

lemma topColor_nonempty:
  "propsStack s \<noteq> [] \<Longrightarrow> topColor s = Inr (request s (last (propsStack s)))"
  by (cases "propsStack s" rule: rev_cases) (simp_all add: topColor_def js_index_def request_def)

lemma notify_ok:
  "state_ok s \<Longrightarrow> state_ok (setColorAsync sch c s)"
  by (simp add: state_ok_def heap_ok_def listeners_ok_def timer_ok_def setColorAsync_def
      setBackgroundColorAsync_def)

lemma step_ok: "state_ok s \<Longrightarrow> step e s = Inr s' \<Longrightarrow> state_ok s'"
proof (cases e)
  case (Push c)
  assume "state_ok s" "step e s = Inr s'"
  with Push ok_push[of s c] show ?thesis by auto
next
  case (Pop a)
  assume "state_ok s" "step e s = Inr s'"
  with Pop ok_pop[of s a] show ?thesis by auto
next
  case (Replace a c)
  assume "state_ok s" "step e s = Inr s'"
  with Replace ok_replace[of s a c] show ?thesis by auto
next
  case (SetColor c)
  assume "state_ok s" "step e s = Inr s'"
  with SetColor ok_setColor[of s c] show ?thesis by auto
next
  case RunImmediate
  assume i: "state_ok s" and st: "step e s = Inr s'"
  show ?thesis
  proof (cases "immediateQueue s")
    case Nil
    with RunImmediate st i show ?thesis by simp
  next
    case (Cons t q)
    from i have "state_ok (s\<lparr>immediateQueue := q\<rparr>)"
      using Cons by (simp add: state_ok_def heap_ok_def listeners_ok_def timer_ok_def)
    from ok_updateCallback[OF this] RunImmediate st Cons show ?thesis by auto
  qed
next
  case (SchemeChanged sch)
  assume "state_ok s" "step e s = Inr s'"
  with SchemeChanged show ?thesis
    by (auto simp: state_ok_def heap_ok_def listeners_ok_def timer_ok_def)
next
  case (AppearanceNotify sch)
  assume i: "state_ok s" and st: "step e s = Inr s'"
  show ?thesis
  proof (cases "0 < appearanceSubs s")
    case True
    with st AppearanceNotify obtain c where "s' = setColorAsync sch c s"
      by (auto simp: appearanceListenerFn_def split: sum.splits)
    with i show ?thesis by (simp add: notify_ok)
  next
    case False
    with st AppearanceNotify i show ?thesis by simp
  qed
next
  case AppStateNotify
  assume i: "state_ok s" and st: "step e s = Inr s'"
  show ?thesis
  proof (cases "0 < appStateSubs s")
    case True
    with st AppStateNotify obtain c where "s' = setColorAsync (systemScheme s) c s"
      by (auto simp: appStateListenerFn_def split: sum.splits)
    with i show ?thesis by (simp add: notify_ok)
  next
    case False
    with st AppStateNotify i show ?thesis by simp
  qed
qed

lemma step_total: "state_ok s \<Longrightarrow> \<exists>s'. step e s = Inr s'"
proof (cases e)
  case (AppearanceNotify sch)
  assume "state_ok s"
  then have "0 < appearanceSubs s \<Longrightarrow> propsStack s \<noteq> []"
    by (auto simp: state_ok_def listeners_ok_def split: if_splits)
  with AppearanceNotify show ?thesis
    by (auto simp: appearanceListenerFn_def topColor_nonempty)
next
  case AppStateNotify
  assume "state_ok s"
  then have "0 < appStateSubs s \<Longrightarrow> propsStack s \<noteq> []"
    by (auto simp: state_ok_def listeners_ok_def split: if_splits)
  with AppStateNotify show ?thesis
    by (auto simp: appStateListenerFn_def topColor_nonempty)
qed (auto split: list.splits)

lemma exec_ok: "state_ok s \<Longrightarrow> exec es s = Inr s' \<Longrightarrow> state_ok s'"
proof (induction es arbitrary: s)
  case Nil
  then show ?case by simp
next
  case (Cons e es)
  from step_total[OF Cons.prems(1)] obtain s1 where s1: "step e s = Inr s1" by blast
  with Cons.prems(2) have "exec es s1 = Inr s'" by simp
  from Cons.IH[OF step_ok[OF Cons.prems(1) s1] this] show ?case .
qed

lemma exec_total: "state_ok s \<Longrightarrow> \<exists>s'. exec es s = Inr s'"
proof (induction es arbitrary: s)
  case Nil
  then show ?case by simp
next
  case (Cons e es)
  from step_total[OF Cons.prems] obtain s1 where s1: "step e s = Inr s1" by blast
  from Cons.IH[OF step_ok[OF Cons.prems s1]] s1 show ?case by simp
qed

lemma exec_append:
  "exec (es @ fs) s = (case exec es s of Inl err \<Rightarrow> Inl err | Inr s' \<Rightarrow> exec fs s')"
  by (induction es arbitrary: s) (auto split: sum.splits)

lemma reachable_ok: "exec es (init sch) = Inr s \<Longrightarrow> state_ok s"
  using exec_ok[OF ok_init] .

section \<open>Resolving a request against the theme\<close>

text \<open>
  C5, as stated, fails: a request \<open>{light: '#fff'}\<close> with no \<open>dark\<close> key is not a themed pair
  for \<open>isThemedColor\<close>, so under the dark theme the object itself is passed on, not
  \<open>'#000'\<close>; and the empty string, although falsy, is not replaced by \<open>'#fff'\<close>.
\<close>

theorem resolve_missing_dark_counterexample:
  "resolve Dark (Obj [(''light'', Str ''#fff'')]) \<noteq> Str ''#000'' \<and>
   resolve Light (Str []) \<noteq> Str ''#fff''"
  by (simp add: resolve_def isThemedColor_def has_prop_def coalesce_def)

text \<open>
  C5, amended: \<open>undefined\<close> and \<open>null\<close> resolve to \<open>'#fff'\<close>; a string resolves to itself (the
  empty string included); an object lacking the \<open>light\<close> or the \<open>dark\<close> key resolves to
  itself; an object with both keys resolves to its \<open>dark\<close> value under the dark theme
  (\<open>'#000'\<close> when that value is \<open>null\<close> or \<open>undefined\<close>) and to its \<open>light\<close> value under any
  other theme (\<open>'#fff'\<close> when that value is \<open>null\<close> or \<open>undefined\<close>). The three examples of
  the specification hold, the third with the \<open>dark\<close> key present and \<open>undefined\<close>.
\<close>

theorem resolve_by_cases:
  "resolve scheme Undefined = Str ''#fff'' \<and>
   resolve scheme Null = Str ''#fff'' \<and>
   resolve scheme (Str str) = Str str \<and>
   (\<not> (has_prop ps ''light'' \<and> has_prop ps ''dark'') \<longrightarrow> resolve scheme (Obj ps) = Obj ps) \<and>
   (has_prop ps ''light'' \<and> has_prop ps ''dark'' \<longrightarrow>
      resolve Dark (Obj ps) =
        (if nullish (get_prop ps ''dark'') then Str ''#000'' else get_prop ps ''dark'') \<and>
      (scheme \<noteq> Dark \<longrightarrow>
         resolve scheme (Obj ps) =
           (if nullish (get_prop ps ''light'') then Str ''#fff'' else get_prop ps ''light''))) \<and>
   resolve Dark (Obj [(''light'', Str ''#fff''), (''dark'', Str ''#000'')]) = Str ''#000'' \<and>
   resolve Light (Obj [(''light'', Str ''#fff''), (''dark'', Str ''#000'')]) = Str ''#fff'' \<and>
   resolve Dark (Obj [(''light'', Str ''#fff''), (''dark'', Undefined)]) = Str ''#000''"
  by (simp add: resolve_def isThemedColor_def coalesce_def has_prop_def get_prop_def)

theorem resolve_by_cases_witness:
  "has_prop [(''light'', Null), (''dark'', Str ''#123'')] ''light'' \<and>
   has_prop [(''light'', Null), (''dark'', Str ''#123'')] ''dark'' \<and>
   Unspecified \<noteq> Dark \<and>
   resolve Dark (Obj [(''light'', Null), (''dark'', Str ''#123'')]) = Str ''#123'' \<and>
   resolve Unspecified (Obj [(''light'', Null), (''dark'', Str ''#123'')]) = Str ''#fff'' \<and>
   \<not> (has_prop [(''light'', Str ''#fff'')] ''light'' \<and> has_prop [(''light'', Str ''#fff'')] ''dark'') \<and>
   resolve Unspecified (Obj [(''light'', Str ''#fff'')]) = Obj [(''light'', Str ''#fff'')]"
  using resolve_by_cases[of Unspecified "[]" "[(''light'', Null), (''dark'', Str ''#123'')]"]
        resolve_by_cases[of Unspecified "[]" "[(''light'', Str ''#fff'')]"]
  by (simp add: has_prop_def get_prop_def)

section \<open>Popping and replacing handles that are not in the stack\<close>

text \<open>
  C6: popping a handle that is not in the stack raises no error and leaves the sequence of
  stack entries as it was.
\<close>

theorem pop_absent_noop:
  "a \<notin> set (propsStack s) \<Longrightarrow>
   \<exists>s'. step (Pop a) s = Inr s' \<and> propsStack s' = propsStack s"
  by (simp add: popStackEntry_eq remove1_idem)

theorem pop_absent_noop_witness:
  "(7::nat) \<notin> set (propsStack (snd (pushStackEntry (Str ''#abc'') (init Light)))) \<and>
   (\<exists>s'. step (Pop 7) (snd (pushStackEntry (Str ''#abc'') (init Light))) = Inr s' \<and>
      propsStack s' = [1])"
proof -
  have p: "propsStack (snd (pushStackEntry (Str ''#abc'') (init Light))) = [1]"
    by (simp add: pushStackEntry_eq init_def createStackEntry_def alloc_def)
  then have h: "(7::nat) \<notin> set (propsStack (snd (pushStackEntry (Str ''#abc'') (init Light))))"
    by simp
  from pop_absent_noop[OF h] p h show ?thesis by simp
qed

lemma fresh_not_in_stack: "state_ok s \<Longrightarrow> length (heap s) \<notin> set (propsStack s)"
  by (auto simp: state_ok_def heap_ok_def)

text \<open>
  C3: in a reachable state, replacing a handle that is not in the stack leaves the stack as
  it was and returns the address of a newly allocated entry, which is not in the stack; a
  later pop or replace of that returned handle leaves the stack unchanged too.
\<close>

theorem replace_absent_disconnected:
  assumes reach: "exec es (init sch) = Inr s"
    and absent: "a \<notin> set (propsStack s)"
    and rep: "replaceStackEntry a c s = (h, s1)"
  shows "propsStack s1 = propsStack s \<and>
         h \<notin> set (propsStack s1) \<and>
         length (heap s) \<le> h \<and> h < length (heap s1) \<and> request s1 h = c \<and>
         (\<exists>s2. step (Pop h) s1 = Inr s2 \<and> propsStack s2 = propsStack s) \<and>
         (\<exists>s2. step (Replace h c') s1 = Inr s2 \<and> propsStack s2 = propsStack s)"
proof -
  from reach have ok: "state_ok s" by (rule reachable_ok)
  from rep have h: "h = length (heap s)" by (simp add: replaceStackEntry_eq)
  from rep absent have st: "propsStack s1 = propsStack s"
    by (auto simp: replaceStackEntry_eq)
  from rep have hp: "heap s1 = heap s @ [[(''color'', c)]]"
    by (auto simp: replaceStackEntry_eq)
  from fresh_not_in_stack[OF ok] h st have nin: "h \<notin> set (propsStack s1)" by simp
  have rq: "request s1 h = c" by (simp add: request_def hp h get_prop_def)
  from nin st have "propsStack (popStackEntry h s1) = propsStack s"
    by (simp add: popStackEntry_eq remove1_idem)
  moreover from nin st have "propsStack (snd (replaceStackEntry h c' s1)) = propsStack s"
    by (simp add: replaceStackEntry_eq)
  ultimately show ?thesis using st nin h hp rq by simp
qed

theorem replace_absent_disconnected_witness:
  "\<exists>s s1. exec [Push (Str ''#111''), Pop 1] (init Light) = Inr s \<and>
     1 \<notin> set (propsStack s) \<and>
     replaceStackEntry 1 (Str ''#222'') s = (2, s1) \<and>
     propsStack s1 = [] \<and> propsStack s = [] \<and> request s1 2 = Str ''#222'' \<and>
     (\<exists>s2. step (Pop 2) s1 = Inr s2 \<and> propsStack s2 = []) \<and>
     (\<exists>s2. step (Replace 2 (Str ''#333'')) s1 = Inr s2 \<and> propsStack s2 = [])"
proof -
  define s where "s = popStackEntry 1 (snd (pushStackEntry (Str ''#111'') (init Light)))"
  define s1 where "s1 = snd (replaceStackEntry 1 (Str ''#222'') s)"
  have e: "exec [Push (Str ''#111''), Pop 1] (init Light) = Inr s"
    by (simp add: s_def)
  have p: "propsStack s = []"
    by (simp add: s_def popStackEntry_eq pushStackEntry_eq init_def createStackEntry_def alloc_def)
  then have n: "1 \<notin> set (propsStack s)" by simp
  have r: "replaceStackEntry 1 (Str ''#222'') s = (2, s1)"
    by (simp add: s1_def replaceStackEntry_eq)
       (simp add: s_def popStackEntry_eq pushStackEntry_eq init_def createStackEntry_def alloc_def)
  from replace_absent_disconnected[OF e n r, of "Str ''#333''"] e n r p show ?thesis
    by auto
qed

section \<open>The listeners\<close>

text \<open>
  C4: in every reachable state each of the two listeners is registered at most once, and is
  held and registered exactly when the stack is non-empty. A push registers the pair (one
  \<open>addChangeListener\<close> and one \<open>addEventListener\<close> call) exactly when the stack was empty, and
  makes no listener call otherwise; a pop unregisters the pair (one call each) exactly when
  it drains a non-empty stack, and makes no listener call otherwise.
\<close>

theorem listeners_follow_stack:
  assumes reach: "exec es (init sch) = Inr s"
  shows "appearanceSubs s \<le> 1 \<and> appStateSubs s \<le> 1 \<and>
         (appearanceSubs s = 1) = (propsStack s \<noteq> []) \<and>
         (appStateSubs s = 1) = (propsStack s \<noteq> []) \<and>
         appearanceListener s = (propsStack s \<noteq> []) \<and>
         appStateListener s = (propsStack s \<noteq> []) \<and>
         calls (snd (pushStackEntry c s)) =
           calls s @ (if propsStack s = [] then [AddChangeListener, AddEventListener] else []) \<and>
         appearanceSubs (snd (pushStackEntry c s)) = 1 \<and>
         appStateSubs (snd (pushStackEntry c s)) = 1 \<and>
         calls (popStackEntry a s) =
           calls s @ (if propsStack s \<noteq> [] \<and> propsStack (popStackEntry a s) = []
                      then [RemoveChangeListener, RemoveEventListener] else []) \<and>
         appearanceSubs (popStackEntry a s) = (if propsStack (popStackEntry a s) = [] then 0 else 1) \<and>
         appStateSubs (popStackEntry a s) = (if propsStack (popStackEntry a s) = [] then 0 else 1)"
proof -
  from reach have ok: "state_ok s" by (rule reachable_ok)
  then have l: "listeners_ok s" by (simp add: state_ok_def)
  have okp: "listeners_ok (popStackEntry a s)"
    using ok_pop[OF ok, of a] by (simp add: state_ok_def)
  have 1: "appearanceSubs s \<le> 1 \<and> appStateSubs s \<le> 1 \<and>
         (appearanceSubs s = 1) = (propsStack s \<noteq> []) \<and>
         (appStateSubs s = 1) = (propsStack s \<noteq> []) \<and>
         appearanceListener s = (propsStack s \<noteq> []) \<and>
         appStateListener s = (propsStack s \<noteq> [])"
    using l by (simp add: listeners_ok_def)
  have 2: "calls (snd (pushStackEntry c s)) =
           calls s @ (if propsStack s = [] then [AddChangeListener, AddEventListener] else [])"
    using l by (simp add: listeners_ok_def pushStackEntry_eq)
  have 3: "appearanceSubs (snd (pushStackEntry c s)) = 1 \<and> appStateSubs (snd (pushStackEntry c s)) = 1"
    using l by (simp add: listeners_ok_def pushStackEntry_eq)
  have 4: "calls (popStackEntry a s) =
           calls s @ (if propsStack s \<noteq> [] \<and> propsStack (popStackEntry a s) = []
                      then [RemoveChangeListener, RemoveEventListener] else [])"
    using l by (auto simp: listeners_ok_def popStackEntry_eq)
  have 5: "appearanceSubs (popStackEntry a s) = (if propsStack (popStackEntry a s) = [] then 0 else 1) \<and>
         appStateSubs (popStackEntry a s) = (if propsStack (popStackEntry a s) = [] then 0 else 1)"
    using okp by (simp add: listeners_ok_def)
  from 1 2 3 4 5 show ?thesis by simp
qed

theorem listeners_follow_stack_witness:
  "\<exists>s. exec [Push (Str ''#111''), Push (Str ''#222''), Pop 1] (init Dark) = Inr s \<and>
     propsStack s = [2] \<and> appearanceSubs s = 1 \<and> appStateSubs s = 1 \<and>
     appearanceListener s \<and> appStateListener s \<and>
     calls (snd (pushStackEntry (Str ''#333'') s)) = calls s \<and>
     calls (popStackEntry 2 s) = calls s @ [RemoveChangeListener, RemoveEventListener] \<and>
     appearanceSubs (popStackEntry 2 s) = 0 \<and> appStateSubs (popStackEntry 2 s) = 0"
proof -
  define s where "s = popStackEntry 1 (snd (pushStackEntry (Str ''#222'')
                        (snd (pushStackEntry (Str ''#111'') (init Dark)))))"
  have e: "exec [Push (Str ''#111''), Push (Str ''#222''), Pop 1] (init Dark) = Inr s"
    by (simp add: s_def)
  have p: "propsStack s = [2]"
    by (simp add: s_def popStackEntry_eq pushStackEntry_eq init_def createStackEntry_def alloc_def)
  then have q: "propsStack (popStackEntry 2 s) = []"
    by (simp add: popStackEntry_eq)
  from listeners_follow_stack[OF e, of "Str ''#333''" 2] e p q show ?thesis
    by auto
qed

text \<open>
  C8: in a reachable state where a listener is registered the stack is non-empty and the
  index \<open>length - 1\<close> is in bounds; the theme-change notification calls the native setter at
  once with the delivered theme resolved against the request of the last stack entry, the
  app-state notification does so with the current system theme; nothing else changes, the
  pending immediates included.
\<close>

theorem notification_applies_top:
  assumes reach: "exec es (init sch) = Inr s"
  shows "(0 < appearanceSubs s \<longrightarrow>
            propsStack s \<noteq> [] \<and>
            js_index (propsStack s) (int (length (propsStack s)) - 1) = Some (last (propsStack s)) \<and>
            step (AppearanceNotify scheme) s =
              Inr (s\<lparr>calls := calls s @
                [SetBackgroundColorAsync (resolve scheme (request s (last (propsStack s))))]\<rparr>)) \<and>
         (0 < appStateSubs s \<longrightarrow>
            propsStack s \<noteq> [] \<and>
            js_index (propsStack s) (int (length (propsStack s)) - 1) = Some (last (propsStack s)) \<and>
            step AppStateNotify s =
              Inr (s\<lparr>calls := calls s @
                [SetBackgroundColorAsync
                   (resolve (systemScheme s) (request s (last (propsStack s))))]\<rparr>))"
proof -
  from reach have "state_ok s" by (rule reachable_ok)
  then have l: "listeners_ok s" by (simp add: state_ok_def)
  have ix: "js_index xs (int (length xs) - 1) = Some (last xs)" if "xs \<noteq> []" for xs :: "addr list"
    using that by (cases xs rule: rev_cases) (simp_all add: js_index_def)
  have a: "propsStack s \<noteq> []" if "0 < appearanceSubs s"
    using l that by (auto simp: listeners_ok_def split: if_splits)
  have b: "propsStack s \<noteq> []" if "0 < appStateSubs s"
    using l that by (auto simp: listeners_ok_def split: if_splits)
  show ?thesis
    using a b ix[of "propsStack s"]
    by (auto simp: appearanceListenerFn_def appStateListenerFn_def topColor_nonempty
        setColorAsync_def setBackgroundColorAsync_def)
qed

theorem notification_applies_top_witness:
  "\<exists>s. exec [Push (Obj [(''light'', Str ''#fff''), (''dark'', Str ''#000'')]), SchemeChanged Dark]
          (init Light) = Inr s \<and>
     0 < appearanceSubs s \<and> 0 < appStateSubs s \<and> propsStack s = [1] \<and>
     step (AppearanceNotify Light) s = Inr (s\<lparr>calls := calls s @ [SetBackgroundColorAsync (Str ''#fff'')]\<rparr>) \<and>
     step AppStateNotify s = Inr (s\<lparr>calls := calls s @ [SetBackgroundColorAsync (Str ''#000'')]\<rparr>)"
proof -
  define s where "s = (snd (pushStackEntry (Obj [(''light'', Str ''#fff''), (''dark'', Str ''#000'')])
                        (init Light)))\<lparr>systemScheme := Dark\<rparr>"
  have e: "exec [Push (Obj [(''light'', Str ''#fff''), (''dark'', Str ''#000'')]), SchemeChanged Dark]
          (init Light) = Inr s"
    by (simp add: s_def)
  have p: "propsStack s = [1] \<and> appearanceSubs s = 1 \<and> appStateSubs s = 1 \<and> systemScheme s = Dark \<and>
           request s 1 = Obj [(''light'', Str ''#fff''), (''dark'', Str ''#000'')]"
    by (simp add: s_def pushStackEntry_eq init_def createStackEntry_def alloc_def request_def get_prop_def)
  have r: "resolve Light (Obj [(''light'', Str ''#fff''), (''dark'', Str ''#000'')]) = Str ''#fff'' \<and>
           resolve Dark (Obj [(''light'', Str ''#fff''), (''dark'', Str ''#000'')]) = Str ''#000''"
    by (simp add: resolve_def isThemedColor_def coalesce_def has_prop_def get_prop_def)
  from notification_applies_top[OF e, of Light] e p r show ?thesis
    by auto
qed

section \<open>The default entry\<close>

lemma step_default:
  assumes ok: "state_ok s" and st: "step e s = Inr s'" and ns: "\<not> is_setColor e"
  shows "heap s' ! defaultProps = heap s ! defaultProps"
proof -
  from ok have d: "defaultProps < length (heap s)" by (simp add: state_ok_def heap_ok_def)
  show ?thesis
  proof (cases e)
    case (Push c)
    with st d show ?thesis by (auto simp: pushStackEntry_eq nth_append)
  next
    case (Pop a)
    with st show ?thesis by (auto simp: popStackEntry_eq)
  next
    case (Replace a c)
    with st d show ?thesis by (auto simp: replaceStackEntry_eq nth_append)
  next
    case (SetColor c)
    with ns show ?thesis by simp
  next
    case RunImmediate
    show ?thesis
    proof (cases "immediateQueue s")
      case Nil
      with RunImmediate st show ?thesis by auto
    next
      case (Cons t q)
      from ok have "heap_ok (s\<lparr>immediateQueue := q\<rparr>)" by (simp add: state_ok_def heap_ok_def)
      then have "heap (updateCallback (s\<lparr>immediateQueue := q\<rparr>)) =
                 heap s @ [merged_obj (s\<lparr>immediateQueue := q\<rparr>)]"
        by (simp add: updateCallback_eq)
      with RunImmediate st Cons d show ?thesis
        by (auto simp: nth_append)
    qed
  next
    case (SchemeChanged c)
    with st show ?thesis by auto
  next
    case (AppearanceNotify c)
    with st show ?thesis
      by (auto simp: appearanceListenerFn_def setColorAsync_def setBackgroundColorAsync_def
          split: if_splits sum.splits)
  next
    case AppStateNotify
    with st show ?thesis
      by (auto simp: appStateListenerFn_def setColorAsync_def setBackgroundColorAsync_def
          split: if_splits sum.splits)
  qed
qed

lemma exec_default:
  "state_ok s \<Longrightarrow> exec fs s = Inr s' \<Longrightarrow> \<forall>e\<in>set fs. \<not> is_setColor e \<Longrightarrow>
   heap s' ! defaultProps = heap s ! defaultProps"
proof (induction fs arbitrary: s)
  case Nil
  then show ?case by simp
next
  case (Cons e fs)
  from step_total[OF Cons.prems(1)] obtain s1 where s1: "step e s = Inr s1" by blast
  with Cons.prems(2) have r: "exec fs s1 = Inr s'" by simp
  from Cons.prems(3) have n: "\<not> is_setColor e" and ns: "\<forall>e\<in>set fs. \<not> is_setColor e" by simp_all
  from Cons.IH[OF step_ok[OF Cons.prems(1) s1] r ns] step_default[OF Cons.prems(1) s1 n]
  show ?case by simp
qed

text \<open>
  C9: from a reachable state, any run of events none of which is a \<open>setColor\<close> call leaves
  the default entry (the object at \<open>defaultProps\<close>) as it was. The recompute merges into a
  newly allocated object, a different one from the default entry, and leaves the default
  entry unchanged; \<open>setColor\<close> is the operation that writes the default entry's request.
\<close>

theorem default_entry_preserved:
  assumes reach: "exec es (init sch) = Inr s"
    and run: "exec fs s = Inr s'"
    and nosc: "\<forall>e\<in>set fs. \<not> is_setColor e"
  shows "heap s' ! defaultProps = heap s ! defaultProps \<and>
         request s' defaultProps = request s defaultProps \<and>
         fst (mergePropsStack (propsStack s) defaultProps (heap s)) \<noteq> defaultProps \<and>
         heap (updateCallback s) ! defaultProps = heap s ! defaultProps \<and>
         request (setColor c s) defaultProps = c"
proof -
  from reach have ok: "state_ok s" by (rule reachable_ok)
  then have h: "heap_ok s" by (simp add: state_ok_def)
  then have d: "defaultProps < length (heap s)" by (simp add: heap_ok_def)
  from exec_default[OF ok run nosc] have 1: "heap s' ! defaultProps = heap s ! defaultProps" .
  then have 2: "request s' defaultProps = request s defaultProps" by (simp add: request_def)
  from h d have 3: "fst (mergePropsStack (propsStack s) defaultProps (heap s)) \<noteq> defaultProps"
    by (simp add: heap_ok_def mergePropsStack_fresh)
  from d have 4: "heap (updateCallback s) ! defaultProps = heap s ! defaultProps"
    by (simp add: updateCallback_eq[OF h] nth_append)
  from d have 5: "request (setColor c s) defaultProps = c"
    by (simp add: setColor_eq request_def get_set_prop)
  from 1 2 3 4 5 show ?thesis by simp
qed

theorem default_entry_preserved_witness:
  "\<exists>s s'. exec [Push (Str ''#111'')] (init Light) = Inr s \<and>
     exec [Push (Str ''#222''), RunImmediate, Replace 1 (Str ''#333''), Pop 2, RunImmediate] s = Inr s' \<and>
     request s defaultProps = Str ''#fff'' \<and>
     request s' defaultProps = Str ''#fff'' \<and>
     request (setColor (Str ''#444'') s) defaultProps = Str ''#444''"
proof -
  define s where "s = snd (pushStackEntry (Str ''#111'') (init Light))"
  have e: "exec [Push (Str ''#111'')] (init Light) = Inr s"
    by (simp add: s_def)
  from reachable_ok[OF e] have ok: "state_ok s" .
  from exec_total[OF ok] obtain s' where
    r: "exec [Push (Str ''#222''), RunImmediate, Replace 1 (Str ''#333''), Pop 2, RunImmediate] s = Inr s'"
    by blast
  have n: "\<forall>e\<in>set [Push (Str ''#222''), RunImmediate, Replace 1 (Str ''#333''), Pop 2, RunImmediate].
        \<not> is_setColor e" by simp
  have q: "request s defaultProps = Str ''#fff''"
    by (simp add: s_def pushStackEntry_eq init_def createStackEntry_def alloc_def request_def
        get_prop_def defaultProps_def)
  from default_entry_preserved[OF e r n, of "Str ''#444''"] e r n q show ?thesis
    by auto
qed

text \<open>
  C10: in a reachable state, whatever the stack holds, \<open>setColor\<close> stores the request in the
  default entry and calls the native setter at once with the request resolved against the
  current system theme; the stack, the requests of its entries, the pending immediates and
  \<open>updateImmediate\<close> stay as they were.
\<close>

theorem setColor_applies_directly:
  assumes reach: "exec es (init sch) = Inr s"
  shows "\<exists>s'. step (SetColor c) s = Inr s' \<and>
           request s' defaultProps = c \<and>
           calls s' = calls s @ [SetBackgroundColorAsync (resolve (systemScheme s) c)] \<and>
           propsStack s' = propsStack s \<and>
           immediateQueue s' = immediateQueue s \<and>
           updateImmediate s' = updateImmediate s \<and>
           (\<forall>a\<in>set (propsStack s). request s' a = request s a)"
proof -
  from reach have ok: "state_ok s" by (rule reachable_ok)
  then have d: "defaultProps < length (heap s)" by (simp add: state_ok_def heap_ok_def)
  from ok have "\<forall>a\<in>set (propsStack s). a \<noteq> defaultProps"
    by (auto simp: state_ok_def heap_ok_def)
  with d show ?thesis
    by (auto simp: setColor_eq request_def get_set_prop)
qed

theorem setColor_applies_directly_witness:
  "\<exists>s. exec [Push (Str ''#111'')] (init Dark) = Inr s \<and>
     propsStack s = [1] \<and> immediateQueue s = [0] \<and>
     (\<exists>s'. step (SetColor (Obj [(''light'', Str ''#eee''), (''dark'', Str ''#222'')])) s = Inr s' \<and>
        request s' defaultProps = Obj [(''light'', Str ''#eee''), (''dark'', Str ''#222'')] \<and>
        calls s' = calls s @ [SetBackgroundColorAsync (Str ''#222'')] \<and>
        propsStack s' = [1] \<and> immediateQueue s' = [0] \<and> request s' 1 = Str ''#111'')"
proof -
  define s where "s = snd (pushStackEntry (Str ''#111'') (init Dark))"
  have e: "exec [Push (Str ''#111'')] (init Dark) = Inr s"
    by (simp add: s_def)
  have p: "propsStack s = [1] \<and> immediateQueue s = [0] \<and> systemScheme s = Dark \<and> request s 1 = Str ''#111''"
    by (simp add: s_def pushStackEntry_eq init_def createStackEntry_def alloc_def request_def get_prop_def)
  have r: "resolve Dark (Obj [(''light'', Str ''#eee''), (''dark'', Str ''#222'')]) = Str ''#222''"
    by (simp add: resolve_def isThemedColor_def coalesce_def has_prop_def get_prop_def)
  from setColor_applies_directly[OF e, of "Obj [(''light'', Str ''#eee''), (''dark'', Str ''#222'')]"] e p r
  show ?thesis by auto
qed

section \<open>The effective colour\<close>

lemma get_fold_merge_obj:
  "get_prop (fold (\<lambda>a q. merge_obj q (h ! a)) stack m) k = fold (pick h k) stack (get_prop m k)"
  by (induction stack arbitrary: m) (simp_all add: get_merge_obj pick_def)

lemma effectiveColor_fold:
  "heap_ok s \<Longrightarrow>
   effectiveColor s = fold (pick (heap s) ''color'') (propsStack s) (request s defaultProps)"
  by (simp add: effectiveColor_eq merged_obj_def get_fold_merge_obj request_def)








section \<open>Coalescing\<close>

lemma colorsOf_append: "colorsOf (xs @ ys) = colorsOf xs @ colorsOf ys"
  by (induction xs rule: colorsOf.induct) simp_all

lemma effectiveColor_queue: "effectiveColor (s\<lparr>immediateQueue := q\<rparr>) = effectiveColor s"
  by (simp add: effectiveColor_def)

lemma mutation_schedules:
  assumes ok: "state_ok s" and mu: "is_mutation e" and st: "step e s = Inr s'"
  shows "immediateQueue s' = [immediateCounter s] \<and> updateImmediate s' = Some (immediateCounter s) \<and>
         immediateCounter s' = immediateCounter s + 1 \<and> colorCalls s' = colorCalls s"
proof -
  from ok have t: "timer_ok s" by (simp add: state_ok_def)
  note f = timer_ok_scheduled[OF t]
  show ?thesis
  proof (cases e)
    case (Push c)
    with st show ?thesis by (auto simp: pushStackEntry_eq f colorCalls_def colorsOf_append)
  next
    case (Pop a)
    with st show ?thesis by (auto simp: popStackEntry_eq f colorCalls_def colorsOf_append)
  next
    case (Replace a c)
    with st show ?thesis by (auto simp: replaceStackEntry_eq f colorCalls_def)
  qed (use mu in simp_all)
qed

lemma burst_schedules:
  "state_ok s \<Longrightarrow> ms \<noteq> [] \<Longrightarrow> \<forall>e\<in>set ms. is_mutation e \<Longrightarrow> exec ms s = Inr s' \<Longrightarrow>
   (\<exists>t. immediateQueue s' = [t] \<and> updateImmediate s' = Some t \<and> immediateCounter s \<le> t) \<and>
   colorCalls s' = colorCalls s"
proof (induction ms arbitrary: s)
  case Nil
  then show ?case by simp
next
  case (Cons e ms)
  from step_total[OF Cons.prems(1)] obtain s1 where s1: "step e s = Inr s1" by blast
  with Cons.prems(4) have r: "exec ms s1 = Inr s'" by simp
  from Cons.prems(3) have mu: "is_mutation e" and mus: "\<forall>e\<in>set ms. is_mutation e" by simp_all
  note one = mutation_schedules[OF Cons.prems(1) mu s1]
  show ?case
  proof (cases "ms = []")
    case True
    with r have "s' = s1" by simp
    with one show ?thesis by simp
  next
    case False
    from Cons.IH[OF step_ok[OF Cons.prems(1) s1] False mus r] one show ?thesis by auto
  qed
qed

text \<open>
  C2, as stated, fails: the recompute calls the native setter only under \<open>if (color)\<close>. One
  push of the empty string followed by the deferred recompute makes no call at all.
\<close>

theorem burst_empty_string_counterexample:
  "map_sum id colorCalls (exec [Push (Str []), RunImmediate] (init Light)) = Inr []"
  by (simp add: pushStackEntry_eq updateCallback_def init_def createStackEntry_def alloc_def
      mergePropsStack_def merge_entry_def merge_prop_def get_prop_def defaultProps_def
      colorCalls_def Let_def)

text \<open>
  C2, amended: from a reachable state, a burst of one or more stack mutations makes no call
  to the native setter itself and leaves exactly one immediate pending, the one
  \<open>updateImmediate\<close> holds; whatever was pending before the burst has been cancelled. Running
  that immediate empties the queue and calls the native setter exactly once when the
  effective colour of the state after the last mutation is truthy, with that colour resolved
  against the current system theme, and not at all when it is \<open>null\<close>, \<open>undefined\<close> or the
  empty string.
\<close>

theorem burst_one_recompute:
  assumes reach: "exec es (init sch) = Inr s"
    and ne: "ms \<noteq> []"
    and mu: "\<forall>e\<in>set ms. is_mutation e"
    and run: "exec ms s = Inr s'"
  shows "(\<exists>t. immediateQueue s' = [t] \<and> updateImmediate s' = Some t \<and>
              t \<notin> set (immediateQueue s)) \<and>
         colorCalls s' = colorCalls s \<and>
         (\<exists>s''. step RunImmediate s' = Inr s'' \<and>
            immediateQueue s'' = [] \<and>
            colorCalls s'' =
              colorCalls s @
                (if truthy (effectiveColor s') then [resolve (systemScheme s') (effectiveColor s')]
                 else []))"
proof -
  from reach have ok: "state_ok s" by (rule reachable_ok)
  from exec_ok[OF ok run] have ok': "state_ok s'" .
  from burst_schedules[OF ok ne mu run] obtain t where
    q: "immediateQueue s' = [t]" and u: "updateImmediate s' = Some t"
    and ge: "immediateCounter s \<le> t" and c: "colorCalls s' = colorCalls s"
    by blast
  from ok have "\<forall>x\<in>set (immediateQueue s). x < immediateCounter s"
    by (simp add: state_ok_def timer_ok_def)
  with ge have fresh: "t \<notin> set (immediateQueue s)" by auto
  from ok' have h: "heap_ok (s'\<lparr>immediateQueue := []\<rparr>)" by (simp add: state_ok_def heap_ok_def)
  have st: "step RunImmediate s' = Inr (updateCallback (s'\<lparr>immediateQueue := []\<rparr>))"
    using q by simp
  have "immediateQueue (updateCallback (s'\<lparr>immediateQueue := []\<rparr>)) = [] \<and>
        colorCalls (updateCallback (s'\<lparr>immediateQueue := []\<rparr>)) =
          colorCalls s @
                (if truthy (effectiveColor s') then [resolve (systemScheme s') (effectiveColor s')]
                 else [])"
    using c by (simp add: updateCallback_eq[OF h] effectiveColor_queue colorCalls_def colorsOf_append)
  with st q u fresh c show ?thesis by simp
qed

theorem burst_one_recompute_witness:
  "\<exists>s s'. exec [Push (Str ''#111'')] (init Dark) = Inr s \<and>
     exec [Push (Str ''#222''), Pop 1, Replace 2 (Obj [(''light'', Str ''#eee''), (''dark'', Str ''#333'')])] s
       = Inr s' \<and>
     immediateQueue s = [0] \<and> immediateQueue s' = [3] \<and> colorCalls s' = [] \<and>
     (\<exists>s''. step RunImmediate s' = Inr s'' \<and> immediateQueue s'' = [] \<and> colorCalls s'' = [Str ''#333''])"
proof -
  define s where "s = snd (pushStackEntry (Str ''#111'') (init Dark))"
  define s' where "s' = snd (replaceStackEntry 2 (Obj [(''light'', Str ''#eee''), (''dark'', Str ''#333'')])
      (popStackEntry 1 (snd (pushStackEntry (Str ''#222'') s))))"
  have e: "exec [Push (Str ''#111'')] (init Dark) = Inr s"
    by (simp add: s_def)
  have r: "exec [Push (Str ''#222''), Pop 1, Replace 2 (Obj [(''light'', Str ''#eee''), (''dark'', Str ''#333'')])] s
       = Inr s'"
    by (simp add: s'_def)
  have n: "[Push (Str ''#222''), Pop 1, Replace 2 (Obj [(''light'', Str ''#eee''), (''dark'', Str ''#333'')])] \<noteq> []"
    by simp
  have m: "\<forall>e\<in>set [Push (Str ''#222''), Pop 1,
             Replace 2 (Obj [(''light'', Str ''#eee''), (''dark'', Str ''#333'')])]. is_mutation e"
    by simp
  have p: "immediateQueue s = [0] \<and> colorCalls s = []"
    by (simp add: s_def pushStackEntry_eq init_def colorCalls_def)
  have p': "immediateQueue s' = [3] \<and> systemScheme s' = Dark \<and> propsStack s' = [3] \<and>
            request s' 3 = Obj [(''light'', Str ''#eee''), (''dark'', Str ''#333'')]"
    by (simp add: s'_def s_def popStackEntry_eq replaceStackEntry_eq pushStackEntry_eq init_def
        createStackEntry_def alloc_def request_def get_prop_def)
  have ty: "\<forall>e\<in>set ([Push (Str ''#111'')] @ [Push (Str ''#222''), Pop 1,
             Replace 2 (Obj [(''light'', Str ''#eee''), (''dark'', Str ''#333'')])]). typed e"
    by simp
  have e2: "exec ([Push (Str ''#111'')] @ [Push (Str ''#222''), Pop 1,
             Replace 2 (Obj [(''light'', Str ''#eee''), (''dark'', Str ''#333'')])]) (init Dark) = Inr s'"
    using e r by (simp add: exec_append)
  have ec: "effectiveColor s' = Obj [(''light'', Str ''#eee''), (''dark'', Str ''#333'')]"
    using effectiveColor_fold[of s'] reachable_ok[OF e2] p'
    by (simp add: state_ok_def pick_def request_def)
  have rs: "resolve Dark (Obj [(''light'', Str ''#eee''), (''dark'', Str ''#333'')]) = Str ''#333''"
    by (simp add: resolve_def isThemedColor_def coalesce_def has_prop_def get_prop_def)
  from burst_one_recompute[OF e n m r] e r p p' ec rs show ?thesis
    by auto
qed

section \<open>Popping a handle twice\<close>


lemma merged_obj_cong:
  "heap s = heap t \<Longrightarrow> propsStack s = propsStack t \<Longrightarrow> merged_obj s = merged_obj t"
  by (simp add: merged_obj_def)











end
